theory Spec2Isabelle
  imports Main "HOL-Library.Sublist"
begin

section \<open>Strings and arrays as the uploader uses them\<close>

text \<open>
  The model follows \<^verbatim>\<open>src/providers/Uploader.ts\<close>. JavaScript strings are
  \<^typ>\<open>string\<close>, arrays are lists. \<^verbatim>\<open>basename\<close> is imported from the
  platform's \<^verbatim>\<open>path\<close> module and is not code of the repository: every
  definition below takes it as the parameter \<open>basename\<close>, so the theorems hold for
  whatever function the platform provides. \<open>posix_basename\<close> is the POSIX behaviour
  of that function (trailing separators dropped, then the last segment); it is only used
  to run the definitions on concrete paths.
\<close>

definition posix_basename :: "string \<Rightarrow> string" where
  "posix_basename p =
     rev (takeWhile (\<lambda>c. c \<noteq> CHR ''/'') (dropWhile (\<lambda>c. c = CHR ''/'') (rev p)))"

text \<open>\<^verbatim>\<open>String.prototype.endsWith\<close>.\<close>

definition endsWith :: "string \<Rightarrow> string \<Rightarrow> bool" where
  "endsWith name sfx =
     (length sfx \<le> length name \<and> drop (length name - length sfx) name = sfx)"

text \<open>\<^verbatim>\<open>Array.prototype.join\<close>.\<close>

fun join :: "string \<Rightarrow> string list \<Rightarrow> string" where
  "join sep [] = []"
| "join sep [x] = x"
| "join sep (x # y # ys) = x @ sep @ join sep (y # ys)"

definition dquote :: string where
  "dquote = [CHR 0x22]"

text \<open>
  \<^verbatim>\<open>const diff = function (a, b) { return b.filter(function (i) { return a.indexOf(i) < 0; }); }\<close>
\<close>

definition diff :: "string list \<Rightarrow> string list \<Rightarrow> string list" where
  "diff a b = filter (\<lambda>i. i \<notin> set a) b"

section \<open>The divergence resolver: \<^verbatim>\<open>askCleanCartridge\<close>\<close>

text \<open>
  A value a promise rejects with or a stream fails with: an \<^verbatim>\<open>Error\<close> instance, given
  by its rendering in a template string and its \<^verbatim>\<open>stack\<close>, or any other value, given
  by its rendering.
\<close>

datatype failure = ErrorInstance string string | OtherValue string

text \<open>
  \<^verbatim>\<open>dwConf\<close> is the document \<^verbatim>\<open>getDWConfig\<close> resolves to. Its
  \<^verbatim>\<open>cartridge\<close> field is \<open>None\<close> when it is not an array, its
  \<^verbatim>\<open>cartridgeResolution\<close> field is \<open>None\<close> when it is absent.
\<close>

record dw_config =
  configFilename :: string
  cartridge :: "string list option"
  cartridgeResolution :: "string option"

text \<open>
  \<^verbatim>\<open>let removeFilesMode: undefined | 'remove' | 'leave'\<close> is a module-level variable:
  \<open>None\<close> is \<^verbatim>\<open>undefined\<close>. The function reads and writes it, may await
  \<^verbatim>\<open>getDWConfig\<close> and may await \<^verbatim>\<open>window.showWarningMessage\<close>. The model
  takes the variable's value, the outcome of awaiting \<^verbatim>\<open>getDWConfig\<close> (\<open>Inl\<close>
  when that promise rejects, which rejects the call) and the answer the prompt gives to a
  message (\<open>None\<close> when the user dismisses it). It returns what the call's promise
  settles to (\<open>Inr\<close> the array it resolves to, \<open>Inl\<close> the rejection), the
  variable's new value, whether the config was loaded and the messages the user was
  prompted with.
\<close>

datatype files_mode = Remove | Leave

record ask_outcome =
  resolved :: "failure + string list"
  modeAfter :: "files_mode option"
  configRead :: bool
  prompts :: "string list"

definition extraOnSB :: "(string \<Rightarrow> string) \<Rightarrow> string list \<Rightarrow> string list \<Rightarrow> string list" where
  "extraOnSB basename fileNamesOnSandbox cartridgesToUpload =
     (let cartridgesNamesToUpload = map basename cartridgesToUpload
      in filter (\<lambda>name. \<not> endsWith name ''.zip'')
           (diff cartridgesNamesToUpload fileNamesOnSandbox))"

definition promptMessage :: "string list \<Rightarrow> string" where
  "promptMessage extra =
     ''Your sandbox has extra cartridge/s. '' @ dquote @
     join (dquote @ '', '' @ dquote) extra @ dquote @ ''. What would you like to do?''"

definition askCleanCartridge ::
  "(string \<Rightarrow> string) \<Rightarrow> files_mode option \<Rightarrow> failure + dw_config \<Rightarrow>
   (string \<Rightarrow> string option) \<Rightarrow> string list \<Rightarrow> string list \<Rightarrow> ask_outcome" where
  "askCleanCartridge basename removeFilesMode getDWConfig showWarningMessage
       fileNamesOnSandbox cartridgesToUpload =
     (let extra = extraOnSB basename fileNamesOnSandbox cartridgesToUpload in
      if length extra = 0 then
        \<lparr>resolved = Inr [], modeAfter = removeFilesMode, configRead = False, prompts = []\<rparr>
      else
        (case removeFilesMode of
           Some m \<Rightarrow>
             (if m = Remove then
                \<lparr>resolved = Inr fileNamesOnSandbox, modeAfter = removeFilesMode,
                 configRead = False, prompts = []\<rparr>
              else
                \<lparr>resolved = Inr [], modeAfter = removeFilesMode, configRead = False,
                 prompts = []\<rparr>)
         | None \<Rightarrow>
             (case getDWConfig of
                Inl err \<Rightarrow>
                  \<lparr>resolved = Inl err, modeAfter = None, configRead = True, prompts = []\<rparr>
              | Inr config \<Rightarrow>
                  (if cartridgeResolution config = Some ''remove'' then
                     \<lparr>resolved = Inr fileNamesOnSandbox, modeAfter = Some Remove,
                      configRead = True, prompts = []\<rparr>
                   else if cartridgeResolution config = Some ''leave'' then
                     \<lparr>resolved = Inr [], modeAfter = Some Leave, configRead = True,
                      prompts = []\<rparr>
                   else
                     (let msg = promptMessage extra in
                      case showWarningMessage msg of
                        None \<Rightarrow>
                          \<lparr>resolved = Inr [], modeAfter = None, configRead = True,
                           prompts = [msg]\<rparr>
                      | Some response \<Rightarrow>
                          (if response = [] then
                             \<lparr>resolved = Inr [], modeAfter = None, configRead = True,
                              prompts = [msg]\<rparr>
                           else if response = ''Remove All Always'' then
                             \<lparr>resolved = Inr fileNamesOnSandbox, modeAfter = Some Remove,
                              configRead = True, prompts = [msg]\<rparr>
                           else if response = ''Leave All Always'' then
                             \<lparr>resolved = Inr [], modeAfter = Some Leave, configRead = True,
                              prompts = [msg]\<rparr>
                           else if response = ''Remove All'' then
                             \<lparr>resolved = Inr fileNamesOnSandbox, modeAfter = None,
                              configRead = True, prompts = [msg]\<rparr>
                           else
                             \<lparr>resolved = Inr [], modeAfter = None, configRead = True,
                              prompts = [msg]\<rparr>))))))"



section \<open>The deduplicator: \<^verbatim>\<open>removeDuplicateCartridges\<close>\<close>

text \<open>
  The callback of \<^verbatim>\<open>cartridgesToUpload.filter\<close> pushes to the two arrays
  \<^verbatim>\<open>uniqueCartridges\<close> and \<^verbatim>\<open>duplicateCartridges\<close> while the filter walks
  the input in index order. \<open>dedupFilter\<close> is that walk with the two arrays passed
  along; it returns the filtered array and the final arrays.
  \<^verbatim>\<open>removeDuplicateCartridges\<close> returns the filtered array and, when some
  cartridge was dropped, shows one warning: the second component is its message.
\<close>

fun dedupFilter ::
  "(string \<Rightarrow> string) \<Rightarrow> string list \<Rightarrow> string list \<Rightarrow> string list \<Rightarrow>
   string list \<times> string list \<times> string list" where
  "dedupFilter basename uniqueCartridges duplicateCartridges [] =
     ([], uniqueCartridges, duplicateCartridges)"
| "dedupFilter basename uniqueCartridges duplicateCartridges (c # rest) =
     (let cartridgeName = basename c in
      if cartridgeName \<notin> set uniqueCartridges then
        (case dedupFilter basename (uniqueCartridges @ [cartridgeName]) duplicateCartridges rest of
           (kept, u, d) \<Rightarrow> (c # kept, u, d))
      else dedupFilter basename uniqueCartridges (duplicateCartridges @ [c]) rest)"

definition duplicatesMessage :: "string list \<Rightarrow> string" where
  "duplicatesMessage duplicateCartridges =
     ''Following cartridge/s are duplicates and won't be uploaded. '' @ dquote @
     join (dquote @ '', '' @ dquote) duplicateCartridges @ dquote @ ''.''"

definition removeDuplicateCartridges ::
  "(string \<Rightarrow> string) \<Rightarrow> string list \<Rightarrow> string list \<times> string option" where
  "removeDuplicateCartridges basename cartridgesToUpload =
     (case dedupFilter basename [] [] cartridgesToUpload of
        (kept, uniqueCartridges, duplicateCartridges) \<Rightarrow>
          if length duplicateCartridges = 0 then (kept, None)
          else (kept, Some (duplicatesMessage duplicateCartridges)))"

text \<open>
  What the specification asks of the deduplicator, written from its words and independent
  of the code: the elements at the positions whose basename occurs at no earlier position,
  in input order, are kept; the elements at the other positions are dropped.
\<close>

definition firstOccurrences :: "(string \<Rightarrow> string) \<Rightarrow> string list \<Rightarrow> string list" where
  "firstOccurrences basename xs =
     map (\<lambda>i. xs ! i)
       (filter (\<lambda>i. \<forall>j \<in> set [0..<i]. basename (xs ! j) \<noteq> basename (xs ! i))
          [0..<length xs])"

definition laterOccurrences :: "(string \<Rightarrow> string) \<Rightarrow> string list \<Rightarrow> string list" where
  "laterOccurrences basename xs =
     map (\<lambda>i. xs ! i)
       (filter (\<lambda>i. \<exists>j \<in> set [0..<i]. basename (xs ! j) = basename (xs ! i))
          [0..<length xs])"

section \<open>The allow-list of the config document\<close>

text \<open>
  The collected cartridge paths are a \<^verbatim>\<open>Set\<close> filled by \<^verbatim>\<open>reduce\<close>:
  \<open>collectCartridges\<close> is \<^verbatim>\<open>Array.from\<close> of that set, the distinct paths in
  order of first insertion. \<open>selectCartridges\<close> is lines 166 to 182 of
  \<^verbatim>\<open>loadUploaderConfig\<close>: it returns the new value of \<^verbatim>\<open>dwConf.cartridge\<close> and
  the message of the warning, if one is shown.
\<close>

definition setAdd :: "string list \<Rightarrow> string \<Rightarrow> string list" where
  "setAdd acc val = (if val \<in> set acc then acc else acc @ [val])"

definition collectCartridges :: "string list \<Rightarrow> string list" where
  "collectCartridges emitted = foldl setAdd [] emitted"

definition filteredCartridges ::
  "(string \<Rightarrow> string) \<Rightarrow> string list \<Rightarrow> string list \<Rightarrow> string list" where
  "filteredCartridges basename allowList cartridges =
     filter (\<lambda>c. list_ex (\<lambda>dwCar. basename c = dwCar) allowList) cartridges"

definition missedCartridges ::
  "(string \<Rightarrow> string) \<Rightarrow> string list \<Rightarrow> string list \<Rightarrow> string list" where
  "missedCartridges basename allowList filtered =
     filter (\<lambda>dwCar. \<not> list_ex (\<lambda>c. basename c = dwCar) filtered) allowList"

definition missedMessage :: "string list \<Rightarrow> string" where
  "missedMessage missed =
     ''Cartridge'' @ (if length missed > 1 then ''s'' else []) @ '' '' @ dquote @
     join (dquote @ '', '' @ dquote) missed @ dquote @
     '' does not exist on file system (or not determined as cartridge/s) while added in configuration. It will be ignored, please restart the uploader once this has been resolved.''"

definition selectCartridges ::
  "(string \<Rightarrow> string) \<Rightarrow> string list option \<Rightarrow> string list \<Rightarrow> string list \<times> string option" where
  "selectCartridges basename dwCartridge cartridges =
     (case dwCartridge of
        Some allowList \<Rightarrow>
          (if length allowList \<noteq> 0 then
             (let filtered = filteredCartridges basename allowList cartridges in
              if length filtered \<noteq> length allowList then
                (filtered, Some (missedMessage (missedCartridges basename allowList filtered)))
              else (filtered, None))
           else (cartridges, None))
      | None \<Rightarrow> (cartridges, None))"

section \<open>The session manager: class \<^verbatim>\<open>Uploader\<close>\<close>

text \<open>
  One \<^verbatim>\<open>Uploader\<close> instance together with the module-level variable
  \<^verbatim>\<open>firstClean\<close> it reads and writes. The program is single-threaded and
  event-driven; the model is a step function over the events that reach the instance.

  A subscription object created by \<^verbatim>\<open>subscribe\<close> is a number, in order of creation
  (\<open>subscriptions\<close> counts them). \<open>live\<close> is the set of subscriptions that are open:
  created, not unsubscribed, and neither failed nor completed (the stream library closes a
  subscription when it delivers an error or the completion). The callbacks of a closed
  subscription never run. \<open>cleanFlagReads\<close> counts the reads of the workspace setting
  \<^verbatim>\<open>clean.on.start\<close>, \<open>inits\<close> records the calls of
  \<^verbatim>\<open>uploadServer.init\<close>, \<open>warnings\<close> the messages given to
  \<^verbatim>\<open>window.showWarningMessage\<close> by \<^verbatim>\<open>loadUploaderConfig\<close>, and
  \<open>outputShown\<close> counts \<^verbatim>\<open>outputChannel.show()\<close>.
\<close>

datatype command = enable_upload | clean_upload | disable_upload

record init_call =
  initConfig :: dw_config
  initCleanOnStart :: bool
  initIgnoreList :: "string list"

record uploader =
  firstClean :: bool
  cleanFlagReads :: nat
  prevState :: "bool option"
  uploaderSubscription :: "nat option"
  commandSubs :: bool
  configSubscription :: bool
  outputChannel :: "string list"
  outputShown :: nat
  outputDisposed :: bool
  warnings :: "string list"
  inits :: "init_call list"
  live :: "nat set"
  subscriptions :: nat

text \<open>
  The constructor (lines 39 to 54): the output channel is created, the command bus is
  subscribed, no session exists. The argument is the value \<^verbatim>\<open>firstClean\<close> has in the
  process when the instance is created (\<open>True\<close> in a fresh process).
\<close>

definition newUploader :: "bool \<Rightarrow> uploader" where
  "newUploader fc =
     \<lparr>firstClean = fc, cleanFlagReads = 0, prevState = None, uploaderSubscription = None,
      commandSubs = True, configSubscription = False, outputChannel = [], outputShown = 0,
      outputDisposed = False, warnings = [], inits = [], live = {}, subscriptions = 0\<rparr>"

definition appendLine :: "string \<Rightarrow> uploader \<Rightarrow> uploader" where
  "appendLine l u = u\<lparr>outputChannel := outputChannel u @ [l]\<rparr>"

text \<open>
  The getter \<^verbatim>\<open>cleanOnStart\<close> (lines 24 to 31); \<open>setting\<close> is
  \<^verbatim>\<open>Boolean(...get('clean.on.start'))\<close> at the time of the call.
\<close>

definition cleanOnStart :: "bool \<Rightarrow> uploader \<Rightarrow> bool \<times> uploader" where
  "cleanOnStart setting u =
     (if firstClean u then
        (setting, u\<lparr>firstClean := False, cleanFlagReads := Suc (cleanFlagReads u)\<rparr>)
      else (True, u))"

text \<open>\<^verbatim>\<open>getIgnoreList\<close>: the workspace setting, or the default when it is not set.\<close>

definition getIgnoreList :: "string list option \<Rightarrow> string list" where
  "getIgnoreList setting =
     (case setting of
        None \<Rightarrow> [''node_modules'', CHR 0x5C # ''.git'', CHR 0x5C # ''.zip$'']
      | Some l \<Rightarrow> l)"

text \<open>
  \<^verbatim>\<open>loadUploaderConfig\<close>, the part that runs when it is called (lines 146 to 155 and
  the \<^verbatim>\<open>subscribe\<close> of line 194): an existing subscription is unsubscribed and the field
  cleared, then the new pipeline is subscribed and stored. The pipeline starts from a
  promise, so none of its callbacks runs before the call returns.
\<close>

definition loadUploaderConfig :: "uploader \<Rightarrow> uploader" where
  "loadUploaderConfig u =
     (let u1 = (case uploaderSubscription u of
                  Some s \<Rightarrow>
                    appendLine ''Restarting''
                      (u\<lparr>live := live u - {s}, uploaderSubscription := None\<rparr>)
                | None \<Rightarrow> appendLine ''Starting...'' u);
          n = subscriptions u1
      in u1\<lparr>subscriptions := Suc n, live := insert n (live u1),
            uploaderSubscription := Some n\<rparr>)"

text \<open>
  The stop of lines 47 to 51, repeated at lines 271 to 275.
\<close>

definition stopUpload :: "uploader \<Rightarrow> uploader" where
  "stopUpload u =
     (case uploaderSubscription u of
        Some s \<Rightarrow>
          (appendLine ''Stopping'' u)\<lparr>live := live u - {s}, uploaderSubscription := None\<rparr>
      | None \<Rightarrow> u)"

text \<open>The subscriber of the command bus (lines 43 to 53).\<close>

definition onCommand :: "command \<Rightarrow> uploader \<Rightarrow> uploader" where
  "onCommand c u =
     (if c = clean_upload \<or> c = enable_upload then loadUploaderConfig u
      else if c = disable_upload then stopUpload u
      else u)"

text \<open>
  The listener of \<^verbatim>\<open>workspace.onDidChangeConfiguration\<close> (lines 263 to 278);
  \<open>enabled\<close> is \<^verbatim>\<open>isUploadEnabled()\<close> when it runs.
\<close>

definition onDidChangeConfiguration :: "bool \<Rightarrow> uploader \<Rightarrow> uploader" where
  "onDidChangeConfiguration enabled u =
     (if Some enabled \<noteq> prevState u then
        (let u1 = u\<lparr>prevState := Some enabled\<rparr> in
         if enabled then loadUploaderConfig u1 else stopUpload u1)
      else u)"

text \<open>
  The subscriber function of the observable \<^verbatim>\<open>start()\<close> returns (lines 262 to 288) and
  its teardown (lines 289 to 298).
\<close>

definition onStart :: "bool \<Rightarrow> uploader \<Rightarrow> uploader" where
  "onStart enabled u =
     (let u1 = u\<lparr>configSubscription := True, prevState := Some enabled\<rparr> in
      if enabled then loadUploaderConfig u1
      else appendLine ''Uploader disabled via configuration'' u1)"

definition onTeardown :: "uploader \<Rightarrow> uploader" where
  "onTeardown u =
     (let u1 = (appendLine ''Shutting down...'' u)\<lparr>configSubscription := False, commandSubs := False\<rparr>;
          u2 = (case uploaderSubscription u1 of
                  Some s \<Rightarrow> u1\<lparr>live := live u1 - {s}\<rparr>
                | None \<Rightarrow> u1)
      in u2\<lparr>outputDisposed := True\<rparr>)"

text \<open>
  The callbacks of the pipeline. \<open>onConfigLoaded\<close> is the outer \<^verbatim>\<open>flatMap\<close> callback
  up to line 157. \<open>onCartridges\<close> is the inner one (lines 165 to 192): \<open>emitted\<close>
  are the paths the cartridge resolver emitted for all folders, \<open>cleanSetting\<close> and
  \<open>ignoreSetting\<close> the workspace settings at that time.
\<close>

definition onConfigLoaded :: "dw_config \<Rightarrow> uploader \<Rightarrow> uploader" where
  "onConfigLoaded dwConf u =
     appendLine (''Using config file '' @ [CHR 0x27] @ configFilename dwConf @ [CHR 0x27]) u"

definition showWarnings :: "string option \<Rightarrow> uploader \<Rightarrow> uploader" where
  "showWarnings w u = (case w of None \<Rightarrow> u | Some m \<Rightarrow> u\<lparr>warnings := warnings u @ [m]\<rparr>)"

definition onCartridges ::
  "(string \<Rightarrow> string) \<Rightarrow> dw_config \<Rightarrow> string list \<Rightarrow> bool \<Rightarrow> string list option \<Rightarrow>
   uploader \<Rightarrow> uploader" where
  "onCartridges basename dwConf emitted cleanSetting ignoreSetting u =
     (case selectCartridges basename (cartridge dwConf) (collectCartridges emitted) of
        (selected, missedWarning) \<Rightarrow>
          (case removeDuplicateCartridges basename selected of
             (deduped, duplicatesWarning) \<Rightarrow>
               (case cleanOnStart cleanSetting
                       (showWarnings duplicatesWarning (showWarnings missedWarning u)) of
                  (clean, u1) \<Rightarrow>
                    u1\<lparr>inits := inits u1 @
                         [\<lparr>initConfig = dwConf\<lparr>cartridge := Some deduped\<rparr>,
                           initCleanOnStart = clean,
                           initIgnoreList = getIgnoreList ignoreSetting\<rparr>]\<rparr>)))"

text \<open>The error and completion callbacks of \<^verbatim>\<open>subscribe\<close> (lines 198 to 208).\<close>

definition onError :: "failure \<Rightarrow> uploader \<Rightarrow> uploader" where
  "onError err u =
     (let u1 = u\<lparr>outputShown := Suc (outputShown u)\<rparr> in
      case err of
        ErrorInstance text stack \<Rightarrow>
          appendLine (''Error: '' @ stack) (appendLine (''Error: '' @ text) u1)
      | OtherValue text \<Rightarrow> appendLine (''Error: '' @ text) u1)"

definition onComplete :: "uploader \<Rightarrow> uploader" where
  "onComplete u = appendLine ''Error: completed!'' (u\<lparr>outputShown := Suc (outputShown u)\<rparr>)"

text \<open>
  The events that reach the instance. A command reaches it while its command-bus
  subscription is open, a configuration change while the listener is registered, a
  pipeline callback of subscription \<open>n\<close> while \<open>n\<close> is live; an error or the
  completion closes the subscription after its callback has run. The event of the inner
  callback carries the config document of its session. The order and number of the
  callbacks of a live session are not restricted, so the event sequences of the model
  include all those the stream library can produce.
\<close>

datatype event =
    Command command
  | StartSubscribed bool
  | ConfigurationChanged bool
  | ConfigLoaded nat dw_config
  | CartridgesCollected nat dw_config "string list" bool "string list option"
  | Failed nat failure
  | Completed nat
  | Teardown

fun step :: "(string \<Rightarrow> string) \<Rightarrow> event \<Rightarrow> uploader \<Rightarrow> uploader" where
  "step basename (Command c) u = (if commandSubs u then onCommand c u else u)"
| "step basename (StartSubscribed enabled) u = onStart enabled u"
| "step basename (ConfigurationChanged enabled) u =
     (if configSubscription u then onDidChangeConfiguration enabled u else u)"
| "step basename (ConfigLoaded n dwConf) u =
     (if n \<in> live u then onConfigLoaded dwConf u else u)"
| "step basename (CartridgesCollected n dwConf emitted cleanSetting ignoreSetting) u =
     (if n \<in> live u then onCartridges basename dwConf emitted cleanSetting ignoreSetting u
      else u)"
| "step basename (Failed n err) u =
     (if n \<in> live u then (onError err u)\<lparr>live := live u - {n}\<rparr> else u)"
| "step basename (Completed n) u =
     (if n \<in> live u then (onComplete u)\<lparr>live := live u - {n}\<rparr> else u)"
| "step basename Teardown u = onTeardown u"

fun run :: "(string \<Rightarrow> string) \<Rightarrow> event list \<Rightarrow> uploader \<Rightarrow> uploader" where
  "run basename [] u = u"
| "run basename (e # es) u = run basename es (step basename e u)"

text \<open>
  The events on which the code calls \<^verbatim>\<open>loadUploaderConfig\<close>: the two commands, a
  configuration change or a start that finds the upload enabled.
\<close>

fun startsSession :: "event \<Rightarrow> bool" where
  "startsSession (Command c) = (c = enable_upload \<or> c = clean_upload)"
| "startsSession (StartSubscribed enabled) = enabled"
| "startsSession (ConfigurationChanged enabled) = enabled"
| "startsSession _ = False"

text \<open>
  Two invariants of the reachable states. \<open>sessionInv\<close>: only the subscription the
  field \<^verbatim>\<open>uploaderSubscription\<close> holds can be live, and it was created earlier.
  \<open>cleanInv\<close>, for an instance created when \<^verbatim>\<open>firstClean\<close> was \<open>fc\<close>:
  while \<^verbatim>\<open>firstClean\<close> is still true nothing was passed to the transport and the
  setting was not read; afterwards the setting was read once, for the first call, if
  \<open>fc\<close>, and never otherwise, and every other call got \<open>True\<close>.
\<close>

definition sessionInv :: "uploader \<Rightarrow> bool" where
  "sessionInv u =
     (live u \<subseteq> set_option (uploaderSubscription u) \<and>
      set_option (uploaderSubscription u) \<subseteq> {..<subscriptions u})"

definition cleanInv :: "bool \<Rightarrow> uploader \<Rightarrow> bool" where
  "cleanInv fc u =
     (if firstClean u then fc \<and> inits u = [] \<and> cleanFlagReads u = 0
      else if fc then inits u \<noteq> [] \<and> cleanFlagReads u = 1 \<and>
                      list_all initCleanOnStart (tl (inits u))
      else cleanFlagReads u = 0 \<and> list_all initCleanOnStart (inits u))"

section \<open>Properties of the divergence resolver\<close>


lemma ask_no_extra:
  "extraOnSB basename remote local = [] \<Longrightarrow>
   askCleanCartridge basename mode conf answer remote local =
     \<lparr>resolved = Inr [], modeAfter = mode, configRead = False, prompts = []\<rparr>"
  by (simp add: askCleanCartridge_def)

lemma resolved_all_or_nothing:
  "resolved (askCleanCartridge basename mode conf answer remote local) = Inr [] \<or>
   resolved (askCleanCartridge basename mode conf answer remote local) = Inr remote \<or>
   (\<exists>err. conf = Inl err \<and>
      resolved (askCleanCartridge basename mode conf answer remote local) = Inl err)"
  by (simp add: askCleanCartridge_def Let_def split: option.splits sum.splits)

text \<open>
  The policy variable is set only from the config's \<^verbatim>\<open>cartridgeResolution\<close> or by one
  of the two \<^verbatim>\<open>Always\<close> answers.
\<close>

lemma policy_set_by_config_or_always:
  assumes "modeAfter (askCleanCartridge basename None conf answer remote local) = Some m"
  shows "\<exists>config. conf = Inr config \<and>
           (cartridgeResolution config = Some ''remove'' \<and> m = Remove \<or>
            cartridgeResolution config = Some ''leave'' \<and> m = Leave \<or>
            answer (promptMessage (extraOnSB basename remote local)) = Some ''Remove All Always'' \<and>
              m = Remove \<or>
            answer (promptMessage (extraOnSB basename remote local)) = Some ''Leave All Always'' \<and>
              m = Leave)"
  using assms
  by (cases conf) (auto simp: askCleanCartridge_def Let_def split: if_splits option.splits)

text \<open>
  C1, as stated: a remote name ending in \<^verbatim>\<open>.zip\<close> is never in the returned delete
  set. The code returns the whole remote listing whenever removal applies, archives
  included: with no policy yet, \<^verbatim>\<open>cartridgeResolution\<close> \<^verbatim>\<open>'remove'\<close> and the extra
  cartridge \<^verbatim>\<open>old_cartridge\<close> in the remote listing, \<^verbatim>\<open>app_core.zip\<close> is
  returned for deletion.
\<close>

theorem archive_in_delete_set_counterexample:
  "resolved (askCleanCartridge posix_basename None
      (Inr \<lparr>configFilename = ''dw.json'', cartridge = None, cartridgeResolution = Some ''remove''\<rparr>)
      (\<lambda>_. None)
      [''app_core'', ''old_cartridge'', ''app_core.zip''] [''/ws/cartridges/app_core'']) =
     Inr [''app_core'', ''old_cartridge'', ''app_core.zip''] \<and>
   endsWith ''app_core.zip'' ''.zip''"
  by (simp add: askCleanCartridge_def extraOnSB_def diff_def posix_basename_def endsWith_def Let_def)

text \<open>
  C1, amended: names ending in \<^verbatim>\<open>.zip\<close> are excluded from the extra set
  \<^verbatim>\<open>extraOnSB\<close> that decides whether anything is deleted. When every remote name
  absent locally ends in \<^verbatim>\<open>.zip\<close>, the call returns the empty delete set, leaves the
  policy as it was and neither loads the config nor prompts, whatever the policy, the
  config and the answer. A name ending in \<^verbatim>\<open>.zip\<close> is returned only as part of
  the whole remote listing, when a non-archive extra name exists.
\<close>

theorem archives_not_extra:
  "(\<forall>n \<in> set (extraOnSB basename remote local). \<not> endsWith n ''.zip'') \<and>
   ((\<forall>n \<in> set remote. n \<notin> set (map basename local) \<longrightarrow> endsWith n ''.zip'') \<longrightarrow>
      askCleanCartridge basename mode conf answer remote local =
        \<lparr>resolved = Inr [], modeAfter = mode, configRead = False, prompts = []\<rparr>) \<and>
   (resolved (askCleanCartridge basename mode conf answer remote local) = Inr names \<and>
    n \<in> set names \<and> endsWith n ''.zip'' \<longrightarrow>
      names = remote \<and> extraOnSB basename remote local \<noteq> [])"
proof (intro conjI)
  show "\<forall>n \<in> set (extraOnSB basename remote local). \<not> endsWith n ''.zip''"
    by (simp add: extraOnSB_def)
next
  show "(\<forall>n \<in> set remote. n \<notin> set (map basename local) \<longrightarrow> endsWith n ''.zip'') \<longrightarrow>
      askCleanCartridge basename mode conf answer remote local =
        \<lparr>resolved = Inr [], modeAfter = mode, configRead = False, prompts = []\<rparr>"
  proof
    assume "\<forall>n \<in> set remote. n \<notin> set (map basename local) \<longrightarrow> endsWith n ''.zip''"
    then have "extraOnSB basename remote local = []"
      by (auto simp: extraOnSB_def diff_def filter_empty_conv)
    then show "askCleanCartridge basename mode conf answer remote local =
        \<lparr>resolved = Inr [], modeAfter = mode, configRead = False, prompts = []\<rparr>"
      by (rule ask_no_extra)
  qed
next
  show "resolved (askCleanCartridge basename mode conf answer remote local) = Inr names \<and>
    n \<in> set names \<and> endsWith n ''.zip'' \<longrightarrow>
      names = remote \<and> extraOnSB basename remote local \<noteq> []"
  proof
    assume a: "resolved (askCleanCartridge basename mode conf answer remote local) = Inr names \<and>
      n \<in> set names \<and> endsWith n ''.zip''"
    then have ne: "names \<noteq> []" by auto
    have "extraOnSB basename remote local \<noteq> []"
    proof
      assume "extraOnSB basename remote local = []"
      then have "resolved (askCleanCartridge basename mode conf answer remote local) = Inr []"
        by (simp add: ask_no_extra)
      then show False using a ne by simp
    qed
    moreover have "names = remote"
      using resolved_all_or_nothing [of basename mode conf answer remote local] a ne by auto
    ultimately show "names = remote \<and> extraOnSB basename remote local \<noteq> []" by simp
  qed
qed

theorem archives_not_extra_witness:
  "extraOnSB posix_basename [''app_core'', ''app_core.zip''] [''/ws/cartridges/app_core''] = [] \<and>
   askCleanCartridge posix_basename (Some Remove) (Inl (OtherValue ''unreadable''))
      (\<lambda>_. Some ''Remove All'')
      [''app_core'', ''app_core.zip''] [''/ws/cartridges/app_core''] =
     \<lparr>resolved = Inr [], modeAfter = Some Remove, configRead = False, prompts = []\<rparr> \<and>
   resolved (askCleanCartridge posix_basename (Some Remove) (Inl (OtherValue ''unreadable''))
      (\<lambda>_. None) [''old'', ''app_core.zip''] [''/ws/cartridges/app_core'']) =
     Inr [''old'', ''app_core.zip'']"
  using archives_not_extra [of posix_basename "[''app_core'', ''app_core.zip'']"
      "[''/ws/cartridges/app_core'']" "Some Remove" "Inl (OtherValue ''unreadable'')"
      "\<lambda>_. Some ''Remove All''"]
    archives_not_extra [of posix_basename "[''old'', ''app_core.zip'']"
      "[''/ws/cartridges/app_core'']" "Some Remove" "Inl (OtherValue ''unreadable'')" "\<lambda>_. None"
      "[''old'', ''app_core.zip'']" "''app_core.zip''"]
  by (simp add: askCleanCartridge_def extraOnSB_def diff_def posix_basename_def endsWith_def Let_def)




text \<open>
  C3: when the remote listing has extra non-archive names, no policy is set, the loaded
  config has no \<^verbatim>\<open>cartridgeResolution\<close> and the prompt is dismissed, the delete set is
  empty; the policy stays unset and the user was asked exactly once.
\<close>

theorem default_safety:
  assumes "extraOnSB basename remote local \<noteq> []"
    and "cartridgeResolution config = None"
    and "answer (promptMessage (extraOnSB basename remote local)) = None"
  shows "resolved (askCleanCartridge basename None (Inr config) answer remote local) = Inr [] \<and>
         modeAfter (askCleanCartridge basename None (Inr config) answer remote local) = None \<and>
         prompts (askCleanCartridge basename None (Inr config) answer remote local) =
           [promptMessage (extraOnSB basename remote local)]"
  using assms by (simp add: askCleanCartridge_def Let_def)

theorem default_safety_witness:
  "extraOnSB posix_basename [''app_core'', ''old_cartridge''] [''/ws/cartridges/app_core''] \<noteq> [] \<and>
   resolved (askCleanCartridge posix_basename None
     (Inr \<lparr>configFilename = ''dw.json'', cartridge = None, cartridgeResolution = None\<rparr>)
     (\<lambda>_. None)
     [''app_core'', ''old_cartridge''] [''/ws/cartridges/app_core'']) = Inr []"
  using default_safety [of posix_basename "[''app_core'', ''old_cartridge'']"
      "[''/ws/cartridges/app_core'']"
      "\<lparr>configFilename = ''dw.json'', cartridge = None, cartridgeResolution = None\<rparr>"
      "\<lambda>_. None"]
  by (simp add: extraOnSB_def diff_def posix_basename_def endsWith_def)

text \<open>
  C9: whatever the policy, the config and the answer, the delete set a call resolves to
  is empty or is the whole remote listing passed in; in particular the one-shot answer
  \<^verbatim>\<open>'Remove All'\<close> resolves to the whole listing (and leaves the policy unset). The
  only other outcome is the rejection of the call when the config cannot be loaded.
\<close>

theorem delete_all_or_nothing:
  "(resolved (askCleanCartridge basename mode conf answer remote local) = Inr [] \<or>
    resolved (askCleanCartridge basename mode conf answer remote local) = Inr remote \<or>
    (\<exists>err. conf = Inl err \<and>
       resolved (askCleanCartridge basename mode conf answer remote local) = Inl err)) \<and>
   (extraOnSB basename remote local \<noteq> [] \<and>
    cartridgeResolution config = None \<and>
    answer (promptMessage (extraOnSB basename remote local)) = Some ''Remove All'' \<longrightarrow>
      resolved (askCleanCartridge basename None (Inr config) answer remote local) = Inr remote \<and>
      modeAfter (askCleanCartridge basename None (Inr config) answer remote local) = None)"
  by (simp add: askCleanCartridge_def Let_def split: option.splits sum.splits)

theorem delete_all_or_nothing_witness:
  "extraOnSB posix_basename [''app_core'', ''old_cartridge''] [''/ws/cartridges/app_core''] \<noteq> [] \<and>
   resolved (askCleanCartridge posix_basename None
     (Inr \<lparr>configFilename = ''dw.json'', cartridge = None, cartridgeResolution = None\<rparr>)
     (\<lambda>_. Some ''Remove All'')
     [''app_core'', ''old_cartridge''] [''/ws/cartridges/app_core'']) =
     Inr [''app_core'', ''old_cartridge'']"
  using delete_all_or_nothing [of posix_basename None
      "Inr \<lparr>configFilename = ''dw.json'', cartridge = None, cartridgeResolution = None\<rparr>"
      "\<lambda>_. Some ''Remove All''"
      "[''app_core'', ''old_cartridge'']" "[''/ws/cartridges/app_core'']"
      "\<lparr>configFilename = ''dw.json'', cartridge = None, cartridgeResolution = None\<rparr>"]
  by (simp add: extraOnSB_def diff_def posix_basename_def endsWith_def)

section \<open>Properties of the deduplicator\<close>

lemma ball_upt_Suc:
  "(\<forall>j \<in> {0..<Suc i}. P j) = (P 0 \<and> (\<forall>j \<in> {0..<i}. P (Suc j)))"
  by (simp add: atLeast0_lessThan_Suc_eq_insert_0 del: image_Suc_atLeastLessThan)

lemma bex_upt_Suc:
  "(\<exists>j \<in> {0..<Suc i}. P j) = (P 0 \<or> (\<exists>j \<in> {0..<i}. P (Suc j)))"
  by (simp add: atLeast0_lessThan_Suc_eq_insert_0 del: image_Suc_atLeastLessThan)

lemma upt_length_Cons: "[0..<length (c # cs)] = 0 # map Suc [0..<length cs]"
  by (simp add: upt_conv_Cons map_Suc_upt del: upt_Suc)

lemma dedupFilter_Cons_kept:
  "fst (dedupFilter basename uniq dups (c # cs)) =
     (if basename c \<notin> set uniq
      then c # fst (dedupFilter basename (uniq @ [basename c]) dups cs)
      else fst (dedupFilter basename uniq (dups @ [c]) cs))"
  by (simp add: Let_def split: prod.splits)

lemma dedupFilter_Cons_dropped:
  "snd (snd (dedupFilter basename uniq dups (c # cs))) =
     (if basename c \<notin> set uniq
      then snd (snd (dedupFilter basename (uniq @ [basename c]) dups cs))
      else snd (snd (dedupFilter basename uniq (dups @ [c]) cs)))"
  by (simp add: Let_def split: prod.splits)

text \<open>
  The walk with the names \<open>uniq\<close> already seen keeps the positions whose basename is
  neither in \<open>uniq\<close> nor at an earlier position, and appends the other positions to
  the duplicates.
\<close>

lemma dedupFilter_kept:
  "fst (dedupFilter basename uniq dups xs) =
     map (\<lambda>i. xs ! i)
       (filter (\<lambda>i. basename (xs ! i) \<notin> set uniq \<and>
                  (\<forall>j \<in> set [0..<i]. basename (xs ! j) \<noteq> basename (xs ! i))) [0..<length xs])"
proof (induction xs arbitrary: uniq dups)
  case Nil
  show ?case by simp
next
  case (Cons c cs)
  show ?case
  proof (cases "basename c \<in> set uniq")
    case True
    have "\<And>x. (basename (cs ! x) \<notin> set uniq \<and> basename c \<noteq> basename (cs ! x) \<and>
                 (\<forall>j \<in> {0..<x}. basename (cs ! j) \<noteq> basename (cs ! x))) =
               (basename (cs ! x) \<notin> set uniq \<and>
                 (\<forall>j \<in> {0..<x}. basename (cs ! j) \<noteq> basename (cs ! x)))"
      using True by auto
    then show ?thesis
      unfolding upt_length_Cons dedupFilter_Cons_kept using True
      by (simp add: Cons.IH filter_map o_def ball_upt_Suc del: upt_Suc dedupFilter.simps)
  next
    case False
    have "\<And>x. (basename (cs ! x) \<noteq> basename c \<and> basename (cs ! x) \<notin> set uniq \<and>
                 (\<forall>j \<in> {0..<x}. basename (cs ! j) \<noteq> basename (cs ! x))) =
               (basename (cs ! x) \<notin> set uniq \<and> basename c \<noteq> basename (cs ! x) \<and>
                 (\<forall>j \<in> {0..<x}. basename (cs ! j) \<noteq> basename (cs ! x)))"
      by auto
    then show ?thesis
      unfolding upt_length_Cons dedupFilter_Cons_kept using False
      by (simp add: Cons.IH filter_map o_def ball_upt_Suc del: upt_Suc dedupFilter.simps)
  qed
qed

lemma dedupFilter_dropped:
  "snd (snd (dedupFilter basename uniq dups xs)) =
     dups @ map (\<lambda>i. xs ! i)
       (filter (\<lambda>i. basename (xs ! i) \<in> set uniq \<or>
                  (\<exists>j \<in> set [0..<i]. basename (xs ! j) = basename (xs ! i))) [0..<length xs])"
proof (induction xs arbitrary: uniq dups)
  case Nil
  show ?case by simp
next
  case (Cons c cs)
  show ?case
  proof (cases "basename c \<in> set uniq")
    case True
    have "\<And>x. (basename (cs ! x) \<in> set uniq \<or> basename c = basename (cs ! x) \<or>
                   (\<exists>j \<in> {0..<x}. basename (cs ! j) = basename (cs ! x))) =
               (basename (cs ! x) \<in> set uniq \<or>
                   (\<exists>j \<in> {0..<x}. basename (cs ! j) = basename (cs ! x)))"
      using True by auto
    then show ?thesis
      unfolding upt_length_Cons dedupFilter_Cons_dropped using True
      by (simp add: Cons.IH filter_map o_def bex_upt_Suc del: upt_Suc dedupFilter.simps)
  next
    case False
    have "\<And>x. (basename (cs ! x) = basename c \<or> basename (cs ! x) \<in> set uniq \<or>
                   (\<exists>j \<in> {0..<x}. basename (cs ! j) = basename (cs ! x))) =
               (basename (cs ! x) \<in> set uniq \<or> basename c = basename (cs ! x) \<or>
                   (\<exists>j \<in> {0..<x}. basename (cs ! j) = basename (cs ! x)))"
      by auto
    then show ?thesis
      unfolding upt_length_Cons dedupFilter_Cons_dropped using False
      by (simp add: Cons.IH filter_map o_def bex_upt_Suc del: upt_Suc dedupFilter.simps)
  qed
qed

lemma dedupFilter_names:
  "distinct (map basename (fst (dedupFilter basename uniq dups xs))) \<and>
   basename ` set (fst (dedupFilter basename uniq dups xs)) = basename ` set xs - set uniq"
proof (induction xs arbitrary: uniq dups)
  case Nil
  show ?case by simp
next
  case (Cons c cs)
  show ?case
    unfolding dedupFilter_Cons_kept
    by (auto simp: Cons.IH simp del: dedupFilter.simps)
qed

lemma removeDuplicateCartridges_kept:
  "fst (removeDuplicateCartridges basename xs) = fst (dedupFilter basename [] [] xs)"
  by (simp add: removeDuplicateCartridges_def split: prod.splits)

lemma removeDuplicateCartridges_warning:
  "snd (removeDuplicateCartridges basename xs) =
     (if snd (snd (dedupFilter basename [] [] xs)) = [] then None
      else Some (duplicatesMessage (snd (snd (dedupFilter basename [] [] xs)))))"
  by (simp add: removeDuplicateCartridges_def split: prod.splits)

text \<open>
  C5: for every ordered input, \<^verbatim>\<open>removeDuplicateCartridges\<close> returns exactly the
  elements at the positions where a basename occurs for the first time, in input order.
  So the result is a subsequence of the input (relative order preserved), its basenames
  are pairwise distinct, and every basename of the input is the basename of a kept
  element. The elements at all later positions of a basename are dropped, and they are
  what the warning names; no warning is shown when nothing was dropped.
\<close>

theorem dedup_first_occurrences:
  "fst (removeDuplicateCartridges basename xs) = firstOccurrences basename xs \<and>
   subseq (fst (removeDuplicateCartridges basename xs)) xs \<and>
   distinct (map basename (fst (removeDuplicateCartridges basename xs))) \<and>
   set (map basename (fst (removeDuplicateCartridges basename xs))) = set (map basename xs) \<and>
   snd (removeDuplicateCartridges basename xs) =
     (if laterOccurrences basename xs = [] then None
      else Some (duplicatesMessage (laterOccurrences basename xs)))"
proof (intro conjI)
  show eq: "fst (removeDuplicateCartridges basename xs) = firstOccurrences basename xs"
    by (simp add: removeDuplicateCartridges_kept dedupFilter_kept firstOccurrences_def)
  have "subseq (map (\<lambda>i. xs ! i)
       (filter (\<lambda>i. \<forall>j \<in> set [0..<i]. basename (xs ! j) \<noteq> basename (xs ! i)) [0..<length xs]))
       (map (\<lambda>i. xs ! i) [0..<length xs])"
    by (intro subseq_map subseq_filter_left)
  then show "subseq (fst (removeDuplicateCartridges basename xs)) xs"
    unfolding eq firstOccurrences_def by (simp only: map_nth)
  show "distinct (map basename (fst (removeDuplicateCartridges basename xs)))"
    using dedupFilter_names [of basename "[]" "[]" xs]
    by (simp add: removeDuplicateCartridges_kept)
  show "set (map basename (fst (removeDuplicateCartridges basename xs))) = set (map basename xs)"
    using dedupFilter_names [of basename "[]" "[]" xs]
    by (simp add: removeDuplicateCartridges_kept)
  show "snd (removeDuplicateCartridges basename xs) =
     (if laterOccurrences basename xs = [] then None
      else Some (duplicatesMessage (laterOccurrences basename xs)))"
    by (simp add: removeDuplicateCartridges_warning dedupFilter_dropped laterOccurrences_def)
qed

theorem dedup_first_occurrences_witness:
  "fst (removeDuplicateCartridges posix_basename
      [''/a/x'', ''/a/y'', ''/b/x'', ''/c/z'', ''/d/y'']) = [''/a/x'', ''/a/y'', ''/c/z''] \<and>
   firstOccurrences posix_basename [''/a/x'', ''/a/y'', ''/b/x'', ''/c/z'', ''/d/y''] =
     [''/a/x'', ''/a/y'', ''/c/z'']"
  using dedup_first_occurrences [of posix_basename "[''/a/x'', ''/a/y'', ''/b/x'', ''/c/z'', ''/d/y'']"]
  by (simp add: removeDuplicateCartridges_def posix_basename_def Let_def)

section \<open>Properties of the allow-list filtering\<close>

text \<open>
  C6: the warning should be shown exactly when some allow-list name matches no resolved
  cartridge. The code shows it exactly when the number of matched paths differs from the
  number of allow-list names (line 172). With \<^verbatim>\<open>app_core\<close> resolved in two workspace
  folders, the allow-list \<^verbatim>\<open>[app_core, app_missing]\<close> gives two matched paths for two
  names: no warning, although \<^verbatim>\<open>app_missing\<close> matches nothing. With the allow-list
  \<^verbatim>\<open>[app_core]\<close> the same two paths give a warning that names no cartridge, although
  nothing is missing.
\<close>

theorem missing_warning_by_length:
  "selectCartridges posix_basename (Some [''app_core'', ''app_missing''])
     (collectCartridges [''/ws1/cartridges/app_core'', ''/ws2/cartridges/app_core'']) =
     ([''/ws1/cartridges/app_core'', ''/ws2/cartridges/app_core''], None) \<and>
   missedCartridges posix_basename [''app_core'', ''app_missing'']
     [''/ws1/cartridges/app_core'', ''/ws2/cartridges/app_core''] = [''app_missing''] \<and>
   selectCartridges posix_basename (Some [''app_core''])
     (collectCartridges [''/ws1/cartridges/app_core'', ''/ws2/cartridges/app_core'']) =
     ([''/ws1/cartridges/app_core'', ''/ws2/cartridges/app_core''], Some (missedMessage [])) \<and>
   missedCartridges posix_basename [''app_core'']
     [''/ws1/cartridges/app_core'', ''/ws2/cartridges/app_core''] = []"
  by (simp add: selectCartridges_def collectCartridges_def setAdd_def filteredCartridges_def
      missedCartridges_def posix_basename_def Let_def)

text \<open>
  C10: with a non-empty allow-list, the cartridge list the code selects is the collected
  list filtered by the allow-list, and filtering that result again by the same allow-list
  changes nothing.
\<close>

theorem allow_list_idempotent:
  assumes "allowList \<noteq> []"
  shows "fst (selectCartridges basename (Some allowList)
            (fst (selectCartridges basename (Some allowList) cartridges))) =
         fst (selectCartridges basename (Some allowList) cartridges) \<and>
         filteredCartridges basename allowList (filteredCartridges basename allowList cartridges) =
         filteredCartridges basename allowList cartridges \<and>
         fst (selectCartridges basename (Some allowList) cartridges) =
         filteredCartridges basename allowList cartridges"
  using assms by (simp add: selectCartridges_def filteredCartridges_def Let_def)

theorem allow_list_idempotent_witness:
  "[''C'', ''A''] \<noteq> ([] :: string list) \<and>
   fst (selectCartridges posix_basename (Some [''C'', ''A'']) [''/ws/A'', ''/ws/B'', ''/ws/C'']) =
     [''/ws/A'', ''/ws/C''] \<and>
   fst (selectCartridges posix_basename (Some [''C'', ''A''])
     (fst (selectCartridges posix_basename (Some [''C'', ''A'']) [''/ws/A'', ''/ws/B'', ''/ws/C'']))) =
     [''/ws/A'', ''/ws/C'']"
  using allow_list_idempotent [of "[''C'', ''A'']" posix_basename "[''/ws/A'', ''/ws/B'', ''/ws/C'']"]
  by (simp add: selectCartridges_def filteredCartridges_def posix_basename_def Let_def)

section \<open>Properties of the session manager\<close>

lemma sessionInv_new: "sessionInv (newUploader fc)"
  by (simp add: sessionInv_def newUploader_def)

lemma sessionInv_prevState: "sessionInv (u\<lparr>prevState := x\<rparr>) = sessionInv u"
  by (simp add: sessionInv_def)

lemma sessionInv_configSubscription: "sessionInv (u\<lparr>configSubscription := x\<rparr>) = sessionInv u"
  by (simp add: sessionInv_def)

lemma sessionInv_appendLine: "sessionInv (appendLine l u) = sessionInv u"
  by (simp add: sessionInv_def appendLine_def)

lemmas sessionInv_simps = sessionInv_prevState sessionInv_configSubscription sessionInv_appendLine

lemma sessionInv_load: "sessionInv u \<Longrightarrow> sessionInv (loadUploaderConfig u)"
  by (auto simp: sessionInv_def loadUploaderConfig_def appendLine_def Let_def split: option.splits)

lemma sessionInv_stop: "sessionInv u \<Longrightarrow> sessionInv (stopUpload u)"
  by (auto simp: sessionInv_def stopUpload_def appendLine_def split: option.splits)

text \<open>
  After \<^verbatim>\<open>loadUploaderConfig\<close> the only live subscription is the one it created.
\<close>

lemma live_load: "sessionInv u \<Longrightarrow> live (loadUploaderConfig u) = {subscriptions u}"
  by (auto simp: sessionInv_def loadUploaderConfig_def appendLine_def Let_def split: option.splits)

lemma subscriptions_load: "subscriptions (loadUploaderConfig u) = Suc (subscriptions u)"
  by (simp add: loadUploaderConfig_def appendLine_def Let_def split: option.splits)

lemma handle_load: "uploaderSubscription (loadUploaderConfig u) = Some (subscriptions u)"
  by (simp add: loadUploaderConfig_def appendLine_def Let_def split: option.splits)

lemma subscriptions_stop: "subscriptions (stopUpload u) = subscriptions u"
  by (simp add: stopUpload_def appendLine_def split: option.splits)

lemma onCartridges_session:
  "live (onCartridges basename dwConf emitted cs ig u) = live u \<and>
   uploaderSubscription (onCartridges basename dwConf emitted cs ig u) = uploaderSubscription u \<and>
   subscriptions (onCartridges basename dwConf emitted cs ig u) = subscriptions u"
  by (simp add: onCartridges_def cleanOnStart_def showWarnings_def split: prod.splits option.splits)

lemma sessionInv_step: "sessionInv u \<Longrightarrow> sessionInv (step basename e u)"
proof (cases e)
  case (Command c)
  assume "sessionInv u"
  then show ?thesis using Command
    by (simp add: onCommand_def sessionInv_load sessionInv_stop)
next
  case (StartSubscribed enabled)
  assume "sessionInv u"
  then show ?thesis using StartSubscribed
    by (simp add: onStart_def Let_def sessionInv_load sessionInv_simps)
next
  case (ConfigurationChanged enabled)
  assume "sessionInv u"
  then show ?thesis using ConfigurationChanged
    by (simp add: onDidChangeConfiguration_def Let_def sessionInv_load sessionInv_stop
        sessionInv_simps)
next
  case (ConfigLoaded n dwConf)
  assume "sessionInv u"
  then show ?thesis using ConfigLoaded
    by (simp add: onConfigLoaded_def sessionInv_simps)
next
  case (CartridgesCollected n dwConf emitted cs ig)
  assume "sessionInv u"
  then show ?thesis using CartridgesCollected
    by (simp add: sessionInv_def onCartridges_session)
next
  case (Failed n err)
  assume "sessionInv u"
  then show ?thesis using Failed
    by (auto simp: sessionInv_def onError_def appendLine_def Let_def split: failure.splits)
next
  case (Completed n)
  assume "sessionInv u"
  then show ?thesis using Completed
    by (auto simp: sessionInv_def onComplete_def appendLine_def)
next
  case Teardown
  assume "sessionInv u"
  then show ?thesis using Teardown
    by (auto simp: sessionInv_def onTeardown_def appendLine_def Let_def split: option.splits)
qed

lemma sessionInv_run: "sessionInv u \<Longrightarrow> sessionInv (run basename es u)"
  by (induction es arbitrary: u) (simp_all add: sessionInv_step)

lemma sessionInv_card: "sessionInv u \<Longrightarrow> card (live u) \<le> 1"
proof -
  assume "sessionInv u"
  then have sub: "live u \<subseteq> set_option (uploaderSubscription u)"
    by (simp add: sessionInv_def)
  have "card (set_option (uploaderSubscription u)) \<le> 1"
    by (cases "uploaderSubscription u") simp_all
  moreover have "card (live u) \<le> card (set_option (uploaderSubscription u))"
    using sub by (intro card_mono) (cases "uploaderSubscription u", simp_all)
  ultimately show ?thesis by simp
qed

text \<open>
  An event that creates a subscription is one of the starting events, and after it the
  new subscription is the only live one.
\<close>

lemma new_subscription_step:
  assumes "sessionInv u" and "subscriptions (step basename e u) \<noteq> subscriptions u"
  shows "startsSession e \<and>
         subscriptions (step basename e u) = Suc (subscriptions u) \<and>
         live (step basename e u) = {subscriptions u} \<and>
         uploaderSubscription (step basename e u) = Some (subscriptions u)"
proof (cases e)
  case (Command c)
  show ?thesis
  proof (cases "commandSubs u \<and> c \<noteq> disable_upload")
    case True
    then have "step basename e u = loadUploaderConfig u"
      using Command by (cases c) (simp_all add: onCommand_def)
    moreover have "startsSession e" using True Command by (cases c) simp_all
    ultimately show ?thesis
      by (simp add: live_load [OF assms(1)] subscriptions_load handle_load)
  next
    case False
    then have "subscriptions (step basename e u) = subscriptions u"
      using Command by (cases c) (simp_all add: onCommand_def subscriptions_stop)
    then show ?thesis using assms(2) by simp
  qed
next
  case (StartSubscribed enabled)
  show ?thesis
  proof (cases enabled)
    case True
    then show ?thesis using StartSubscribed assms(1)
      by (simp add: onStart_def Let_def live_load subscriptions_load handle_load sessionInv_simps)
  next
    case False
    then have "subscriptions (step basename e u) = subscriptions u"
      using StartSubscribed by (simp add: onStart_def Let_def appendLine_def)
    then show ?thesis using assms(2) by simp
  qed
next
  case (ConfigurationChanged enabled)
  show ?thesis
  proof (cases "configSubscription u \<and> Some enabled \<noteq> prevState u \<and> enabled")
    case True
    then have "enabled" and "Some True \<noteq> prevState u" and "configSubscription u"
      by auto
    then show ?thesis using ConfigurationChanged assms(1)
      by (simp add: onDidChangeConfiguration_def Let_def live_load subscriptions_load handle_load
          sessionInv_simps)
  next
    case False
    then have "subscriptions (step basename e u) = subscriptions u"
      using ConfigurationChanged
      by (cases enabled; simp add: onDidChangeConfiguration_def Let_def subscriptions_stop)
    then show ?thesis using assms(2) by simp
  qed
next
  case (ConfigLoaded n dwConf)
  then have "subscriptions (step basename e u) = subscriptions u"
    by (simp add: onConfigLoaded_def appendLine_def)
  then show ?thesis using assms(2) by simp
next
  case (CartridgesCollected n dwConf emitted cs ig)
  then have "subscriptions (step basename e u) = subscriptions u"
    by (simp add: onCartridges_session)
  then show ?thesis using assms(2) by simp
next
  case (Failed n err)
  then have "subscriptions (step basename e u) = subscriptions u"
    by (simp add: onError_def appendLine_def Let_def split: failure.splits)
  then show ?thesis using assms(2) by simp
next
  case (Completed n)
  then have "subscriptions (step basename e u) = subscriptions u"
    by (simp add: onComplete_def appendLine_def)
  then show ?thesis using assms(2) by simp
next
  case Teardown
  then have "subscriptions (step basename e u) = subscriptions u"
    by (simp add: onTeardown_def appendLine_def Let_def split: option.splits)
  then show ?thesis using assms(2) by simp
qed

text \<open>
  While no session is live, only a starting event makes one live or creates a
  subscription.
\<close>

lemma quiet_step:
  assumes "live u = {}" and "\<not> startsSession e"
  shows "live (step basename e u) = {} \<and> subscriptions (step basename e u) = subscriptions u"
proof (cases e)
  case (Command c)
  then show ?thesis using assms
    by (cases c) (simp_all add: onCommand_def stopUpload_def appendLine_def split: option.splits)
next
  case (StartSubscribed enabled)
  then show ?thesis using assms by (simp add: onStart_def Let_def appendLine_def)
next
  case (ConfigurationChanged enabled)
  then show ?thesis using assms
    by (simp add: onDidChangeConfiguration_def Let_def stopUpload_def appendLine_def
        split: option.splits)
next
  case Teardown
  then show ?thesis using assms
    by (simp add: onTeardown_def Let_def appendLine_def split: option.splits)
qed (use assms in simp_all)

lemma quiet_run:
  "live u = {} \<Longrightarrow> \<not> list_ex startsSession es \<Longrightarrow>
   live (run basename es u) = {} \<and> subscriptions (run basename es u) = subscriptions u"
proof (induction es arbitrary: u)
  case Nil
  then show ?case by simp
next
  case (Cons e es)
  from Cons.prems have q: "live (step basename e u) = {}"
    "subscriptions (step basename e u) = subscriptions u"
    using quiet_step [of u e basename] by simp_all
  from Cons.prems have "\<not> list_ex startsSession es" by simp
  from Cons.IH [OF q(1) this] q(2) show ?case by simp
qed

text \<open>
  The error callback does not clear the field: the closed subscription stays in
  \<^verbatim>\<open>uploaderSubscription\<close>, so the next start logs \<^verbatim>\<open>Restarting\<close> and a later
  \<^verbatim>\<open>disable.upload\<close> still logs \<^verbatim>\<open>Stopping\<close>.
\<close>

lemma failed_session_handle_kept:
  "uploaderSubscription (step basename (Failed n err) u) = uploaderSubscription u"
  by (simp add: onError_def appendLine_def Let_def split: failure.splits)

lemma clean_frame_load:
  "firstClean (loadUploaderConfig u) = firstClean u \<and> inits (loadUploaderConfig u) = inits u \<and>
   cleanFlagReads (loadUploaderConfig u) = cleanFlagReads u"
  by (simp add: loadUploaderConfig_def appendLine_def Let_def split: option.splits)

lemma clean_frame_stop:
  "firstClean (stopUpload u) = firstClean u \<and> inits (stopUpload u) = inits u \<and>
   cleanFlagReads (stopUpload u) = cleanFlagReads u"
  by (simp add: stopUpload_def appendLine_def split: option.splits)

lemma clean_frame_step:
  assumes "\<And>n dwConf emitted cs ig. e \<noteq> CartridgesCollected n dwConf emitted cs ig"
  shows "firstClean (step basename e u) = firstClean u \<and> inits (step basename e u) = inits u \<and>
         cleanFlagReads (step basename e u) = cleanFlagReads u"
proof (cases e)
  case (Command c)
  then show ?thesis by (simp add: onCommand_def clean_frame_load clean_frame_stop)
next
  case (StartSubscribed enabled)
  then show ?thesis by (simp add: onStart_def Let_def clean_frame_load appendLine_def)
next
  case (ConfigurationChanged enabled)
  then show ?thesis
    by (simp add: onDidChangeConfiguration_def Let_def clean_frame_load clean_frame_stop)
next
  case (ConfigLoaded n dwConf)
  then show ?thesis by (simp add: onConfigLoaded_def appendLine_def)
next
  case (CartridgesCollected n dwConf emitted cs ig)
  then show ?thesis using assms by simp
next
  case (Failed n err)
  then show ?thesis by (simp add: onError_def appendLine_def Let_def split: failure.splits)
next
  case (Completed n)
  then show ?thesis by (simp add: onComplete_def appendLine_def)
next
  case Teardown
  then show ?thesis by (simp add: onTeardown_def appendLine_def Let_def split: option.splits)
qed

lemma onCartridges_clean:
  "\<exists>c. inits (onCartridges basename dwConf emitted setting ig u) = inits u @ [c] \<and>
        initCleanOnStart c = (if firstClean u then setting else True) \<and>
        firstClean (onCartridges basename dwConf emitted setting ig u) = False \<and>
        cleanFlagReads (onCartridges basename dwConf emitted setting ig u) =
          (if firstClean u then Suc (cleanFlagReads u) else cleanFlagReads u)"
  by (simp add: onCartridges_def cleanOnStart_def showWarnings_def split: prod.splits option.splits)

lemma cleanInv_frame:
  "firstClean v = firstClean u \<Longrightarrow> inits v = inits u \<Longrightarrow>
   cleanFlagReads v = cleanFlagReads u \<Longrightarrow> cleanInv fc v = cleanInv fc u"
  by (simp add: cleanInv_def)

lemma cleanInv_step:
  assumes inv: "cleanInv fc u"
  shows "cleanInv fc (step basename e u)"
proof (cases "\<exists>n dwConf emitted setting ig. e = CartridgesCollected n dwConf emitted setting ig")
  case False
  then have "firstClean (step basename e u) = firstClean u \<and>
             inits (step basename e u) = inits u \<and>
             cleanFlagReads (step basename e u) = cleanFlagReads u"
    by (intro clean_frame_step) blast
  then show ?thesis using inv cleanInv_frame by blast
next
  case True
  then obtain n dwConf emitted setting ig
    where e: "e = CartridgesCollected n dwConf emitted setting ig" by blast
  show ?thesis
  proof (cases "n \<in> live u")
    case False
    then show ?thesis using inv e by simp
  next
    case True
    let ?u' = "onCartridges basename dwConf emitted setting ig u"
    obtain c where c: "inits ?u' = inits u @ [c]"
        "initCleanOnStart c = (if firstClean u then setting else True)"
        "firstClean ?u' = False"
        "cleanFlagReads ?u' = (if firstClean u then Suc (cleanFlagReads u) else cleanFlagReads u)"
      using onCartridges_clean [of basename dwConf emitted setting ig u] by blast
    have "cleanInv fc ?u'"
      using inv c by (cases "firstClean u"; cases fc; simp add: cleanInv_def)
    then show ?thesis using e True by simp
  qed
qed

lemma cleanInv_run: "cleanInv fc u \<Longrightarrow> cleanInv fc (run basename es u)"
  by (induction es arbitrary: u) (simp_all add: cleanInv_step)

lemma cleanInv_new: "cleanInv fc (newUploader fc)"
  by (simp add: cleanInv_def newUploader_def)

text \<open>
  C4: in every state the instance reaches, by any sequence of events, at most one
  subscription is live, and it is the one held in \<^verbatim>\<open>uploaderSubscription\<close>. After
  \<^verbatim>\<open>loadUploaderConfig\<close> the only live subscription is the new one: the previous one
  was unsubscribed before. Every event that creates a subscription is one of the starting
  events (\<^verbatim>\<open>enable.upload\<close>, \<^verbatim>\<open>clean.upload\<close>, a configuration change or a start
  with the upload enabled), and after it the new subscription is the only live one.
\<close>

theorem one_session_at_a_time:
  "card (live (run basename es (newUploader fc))) \<le> 1 \<and>
   live (run basename es (newUploader fc)) \<subseteq>
     set_option (uploaderSubscription (run basename es (newUploader fc))) \<and>
   live (loadUploaderConfig (run basename es (newUploader fc))) =
     {subscriptions (run basename es (newUploader fc))} \<and>
   subscriptions (run basename es (newUploader fc)) \<notin> live (run basename es (newUploader fc)) \<and>
   (subscriptions (step basename e (run basename es (newUploader fc))) \<noteq>
      subscriptions (run basename es (newUploader fc)) \<longrightarrow>
    startsSession e \<and>
    live (step basename e (run basename es (newUploader fc))) =
      {subscriptions (run basename es (newUploader fc))} \<and>
    uploaderSubscription (step basename e (run basename es (newUploader fc))) =
      Some (subscriptions (run basename es (newUploader fc))))"
proof -
  define u where "u = run basename es (newUploader fc)"
  have inv: "sessionInv u"
    unfolding u_def by (intro sessionInv_run sessionInv_new)
  have "subscriptions u \<notin> live u"
    using inv by (auto simp: sessionInv_def)
  moreover have "live u \<subseteq> set_option (uploaderSubscription u)"
    using inv by (simp add: sessionInv_def)
  moreover note sessionInv_card [OF inv] live_load [OF inv]
  moreover have "subscriptions (step basename e u) \<noteq> subscriptions u \<longrightarrow>
    startsSession e \<and> live (step basename e u) = {subscriptions u} \<and>
    uploaderSubscription (step basename e u) = Some (subscriptions u)"
    using new_subscription_step [OF inv] by blast
  ultimately show ?thesis unfolding u_def by blast
qed

theorem one_session_at_a_time_witness:
  "subscriptions (step posix_basename (Command enable_upload)
      (run posix_basename [StartSubscribed True, Command clean_upload] (newUploader True))) = 3 \<and>
   subscriptions (run posix_basename [StartSubscribed True, Command clean_upload] (newUploader True)) = 2 \<and>
   live (run posix_basename [StartSubscribed True, Command clean_upload] (newUploader True)) = {1} \<and>
   live (step posix_basename (Command enable_upload)
      (run posix_basename [StartSubscribed True, Command clean_upload] (newUploader True))) = {2}"
  using one_session_at_a_time [of posix_basename "[StartSubscribed True, Command clean_upload]" True
      "Command enable_upload"]
  by (simp add: newUploader_def onStart_def onCommand_def loadUploaderConfig_def appendLine_def Let_def)

text \<open>
  C7: when the pipeline of the live session fails (the config load rejects, or the
  transport's stream fails), the error callback appends the error to the output channel
  once: one line with the message, and one with the stack when the value is an
  \<^verbatim>\<open>Error\<close>. Afterwards no session is live, no subscription was created and the
  transport was not called again; a second failure of the same subscription is not
  delivered; and as long as no starting event arrives (a command \<^verbatim>\<open>enable.upload\<close> or
  \<^verbatim>\<open>clean.upload\<close>, a configuration change or a start with the upload enabled) no
  session becomes live and no subscription is created.
\<close>

theorem start_failure_reported_once:
  assumes "n \<in> live (run basename es (newUploader fc))"
  shows "outputChannel (step basename (Failed n err) (run basename es (newUploader fc))) =
           outputChannel (run basename es (newUploader fc)) @
             (case err of
                ErrorInstance text stack \<Rightarrow> [''Error: '' @ text, ''Error: '' @ stack]
              | OtherValue text \<Rightarrow> [''Error: '' @ text]) \<and>
         live (step basename (Failed n err) (run basename es (newUploader fc))) = {} \<and>
         subscriptions (step basename (Failed n err) (run basename es (newUploader fc))) =
           subscriptions (run basename es (newUploader fc)) \<and>
         inits (step basename (Failed n err) (run basename es (newUploader fc))) =
           inits (run basename es (newUploader fc)) \<and>
         step basename (Failed n err') (step basename (Failed n err) (run basename es (newUploader fc))) =
           step basename (Failed n err) (run basename es (newUploader fc)) \<and>
         (\<not> list_ex startsSession es' \<longrightarrow>
            live (run basename es' (step basename (Failed n err) (run basename es (newUploader fc)))) = {} \<and>
            subscriptions (run basename es' (step basename (Failed n err) (run basename es (newUploader fc)))) =
              subscriptions (run basename es (newUploader fc)))"
proof -
  define u where "u = run basename es (newUploader fc)"
  define u' where "u' = step basename (Failed n err) u"
  have inv: "sessionInv u"
    unfolding u_def by (intro sessionInv_run sessionInv_new)
  have n: "n \<in> live u" using assms by (simp add: u_def)
  then have only: "live u = {n}" using inv
    by (cases "uploaderSubscription u") (auto simp: sessionInv_def)
  have out: "outputChannel u' = outputChannel u @
             (case err of
                ErrorInstance text stack \<Rightarrow> [''Error: '' @ text, ''Error: '' @ stack]
              | OtherValue text \<Rightarrow> [''Error: '' @ text])"
    using n by (simp add: u'_def onError_def appendLine_def Let_def split: failure.splits)
  have live: "live u' = {}"
    using n only by (simp add: u'_def)
  have same: "subscriptions u' = subscriptions u" "inits u' = inits u"
    using n by (simp_all add: u'_def onError_def appendLine_def Let_def split: failure.splits)
  have again: "step basename (Failed n err') u' = u'"
    using live by simp
  have quiet: "\<not> list_ex startsSession es' \<longrightarrow>
     live (run basename es' u') = {} \<and> subscriptions (run basename es' u') = subscriptions u"
    using quiet_run [OF live, of es' basename] same by simp
  show ?thesis
    using out live same again quiet unfolding u'_def u_def by blast
qed

theorem start_failure_reported_once_witness:
  "0 \<in> live (run posix_basename [StartSubscribed True] (newUploader True)) \<and>
   outputChannel (step posix_basename
       (Failed 0 (ErrorInstance ''Error: connect ECONNREFUSED'' ''Error: connect ECONNREFUSED at init''))
       (run posix_basename [StartSubscribed True] (newUploader True))) =
     [''Starting...'', ''Error: Error: connect ECONNREFUSED'',
      ''Error: Error: connect ECONNREFUSED at init''] \<and>
   live (run posix_basename [Command disable_upload, ConfigurationChanged False]
      (step posix_basename
        (Failed 0 (ErrorInstance ''Error: connect ECONNREFUSED'' ''Error: connect ECONNREFUSED at init''))
        (run posix_basename [StartSubscribed True] (newUploader True)))) = {}"
proof -
  have h: "0 \<in> live (run posix_basename [StartSubscribed True] (newUploader True))"
    by (simp add: newUploader_def onStart_def loadUploaderConfig_def appendLine_def Let_def)
  show ?thesis
    using h start_failure_reported_once [OF h,
        of "ErrorInstance ''Error: connect ECONNREFUSED'' ''Error: connect ECONNREFUSED at init''"
           "OtherValue []" "[Command disable_upload, ConfigurationChanged False]"]
    by (simp add: newUploader_def onStart_def loadUploaderConfig_def appendLine_def Let_def)
qed

text \<open>
  C8, as stated: unless a clean was explicitly requested the flag is consulted once, and
  after an explicit request the option passed to the transport is true. The code does not
  look at which command started the session: in a fresh process that starts with the
  upload disabled, the session started by \<^verbatim>\<open>clean.upload\<close> consults the flag and passes
  \<^verbatim>\<open>cleanOnStart = false\<close> when the flag is off. And when the session started by
  \<^verbatim>\<open>clean.upload\<close> fails before it reaches the transport, the next session, started
  by \<^verbatim>\<open>enable.upload\<close>, consults the flag and passes false as well.
\<close>

theorem clean_requested_flag_consulted_counterexample:
  "map initCleanOnStart (inits (run posix_basename
     [StartSubscribed False, Command clean_upload,
      ConfigLoaded 0 \<lparr>configFilename = ''dw.json'', cartridge = None, cartridgeResolution = None\<rparr>,
      CartridgesCollected 0
        \<lparr>configFilename = ''dw.json'', cartridge = None, cartridgeResolution = None\<rparr>
        [''/ws/cartridges/app_core''] False None]
     (newUploader True))) = [False] \<and>
   cleanFlagReads (run posix_basename
     [StartSubscribed False, Command clean_upload,
      ConfigLoaded 0 \<lparr>configFilename = ''dw.json'', cartridge = None, cartridgeResolution = None\<rparr>,
      CartridgesCollected 0
        \<lparr>configFilename = ''dw.json'', cartridge = None, cartridgeResolution = None\<rparr>
        [''/ws/cartridges/app_core''] False None]
     (newUploader True)) = 1 \<and>
   map initCleanOnStart (inits (run posix_basename
     [StartSubscribed False, Command clean_upload, Failed 0 (OtherValue ''no config''),
      Command enable_upload,
      ConfigLoaded 1 \<lparr>configFilename = ''dw.json'', cartridge = None, cartridgeResolution = None\<rparr>,
      CartridgesCollected 1
        \<lparr>configFilename = ''dw.json'', cartridge = None, cartridgeResolution = None\<rparr>
        [''/ws/cartridges/app_core''] False None]
     (newUploader True))) = [False]"
  by (simp add: newUploader_def onStart_def onCommand_def loadUploaderConfig_def appendLine_def
      onConfigLoaded_def onCartridges_def selectCartridges_def collectCartridges_def setAdd_def
      removeDuplicateCartridges_def cleanOnStart_def showWarnings_def getIgnoreList_def Let_def
      onError_def posix_basename_def)

text \<open>
  C8, amended: the flag \<^verbatim>\<open>clean.on.start\<close> is consulted at most once per process, by
  the first evaluation of the \<^verbatim>\<open>cleanOnStart\<close> option, whichever command or event
  started that session (an explicit \<^verbatim>\<open>clean.upload\<close> included), and that evaluation
  passes the flag's value to the transport; every later call of the transport gets
  \<^verbatim>\<open>cleanOnStart = true\<close> without the flag being consulted. For an instance created
  after \<^verbatim>\<open>firstClean\<close> was cleared, the flag is never consulted and every call gets
  true.
\<close>

theorem clean_flag_consulted_once:
  "cleanFlagReads (run basename es (newUploader fc)) \<le> 1 \<and>
   (cleanFlagReads (run basename es (newUploader fc)) = 1) =
     (fc \<and> inits (run basename es (newUploader fc)) \<noteq> []) \<and>
   list_all initCleanOnStart (tl (inits (run basename es (newUploader fc)))) \<and>
   (\<not> fc \<longrightarrow> list_all initCleanOnStart (inits (run basename es (newUploader fc)))) \<and>
   (n \<in> live u \<and> firstClean u \<longrightarrow>
      map initCleanOnStart
        (inits (step basename (CartridgesCollected n dwConf emitted setting ig) u)) =
      map initCleanOnStart (inits u) @ [setting])"
proof -
  have inv: "cleanInv fc (run basename es (newUploader fc))"
    by (intro cleanInv_run cleanInv_new)
  obtain c where "inits (onCartridges basename dwConf emitted setting ig u) = inits u @ [c]"
      "initCleanOnStart c = (if firstClean u then setting else True)"
    using onCartridges_clean [of basename dwConf emitted setting ig u] by blast
  then have "n \<in> live u \<and> firstClean u \<longrightarrow>
      map initCleanOnStart
        (inits (step basename (CartridgesCollected n dwConf emitted setting ig) u)) =
      map initCleanOnStart (inits u) @ [setting]"
    by simp
  moreover have "cleanFlagReads (run basename es (newUploader fc)) \<le> 1 \<and>
   (cleanFlagReads (run basename es (newUploader fc)) = 1) =
     (fc \<and> inits (run basename es (newUploader fc)) \<noteq> []) \<and>
   list_all initCleanOnStart (tl (inits (run basename es (newUploader fc)))) \<and>
   (\<not> fc \<longrightarrow> list_all initCleanOnStart (inits (run basename es (newUploader fc))))"
    using inv by (cases "inits (run basename es (newUploader fc))")
      (auto simp: cleanInv_def split: if_splits)
  ultimately show ?thesis by blast
qed

theorem clean_flag_consulted_once_witness:
  "map initCleanOnStart (inits (run posix_basename
     [StartSubscribed True,
      CartridgesCollected 0
        \<lparr>configFilename = ''dw.json'', cartridge = None, cartridgeResolution = None\<rparr>
        [''/ws/cartridges/app_core''] False None,
      Command enable_upload,
      CartridgesCollected 1
        \<lparr>configFilename = ''dw.json'', cartridge = None, cartridgeResolution = None\<rparr>
        [''/ws/cartridges/app_core''] False None]
     (newUploader True))) = [False, True] \<and>
   cleanFlagReads (run posix_basename
     [StartSubscribed True,
      CartridgesCollected 0
        \<lparr>configFilename = ''dw.json'', cartridge = None, cartridgeResolution = None\<rparr>
        [''/ws/cartridges/app_core''] False None,
      Command enable_upload,
      CartridgesCollected 1
        \<lparr>configFilename = ''dw.json'', cartridge = None, cartridgeResolution = None\<rparr>
        [''/ws/cartridges/app_core''] False None]
     (newUploader True)) = 1 \<and>
   map initCleanOnStart (inits (run posix_basename
     [StartSubscribed True,
      CartridgesCollected 0
        \<lparr>configFilename = ''dw.json'', cartridge = None, cartridgeResolution = None\<rparr>
        [''/ws/cartridges/app_core''] False None]
     (newUploader False))) = [True] \<and>
   0 \<in> live (run posix_basename [StartSubscribed True] (newUploader True)) \<and>
   firstClean (run posix_basename [StartSubscribed True] (newUploader True))"
  using clean_flag_consulted_once [of posix_basename
     "[StartSubscribed True,
      CartridgesCollected 0
        \<lparr>configFilename = ''dw.json'', cartridge = None, cartridgeResolution = None\<rparr>
        [''/ws/cartridges/app_core''] False None,
      Command enable_upload,
      CartridgesCollected 1
        \<lparr>configFilename = ''dw.json'', cartridge = None, cartridgeResolution = None\<rparr>
        [''/ws/cartridges/app_core''] False None]" True 0
     "run posix_basename [StartSubscribed True] (newUploader True)"
     "\<lparr>configFilename = ''dw.json'', cartridge = None, cartridgeResolution = None\<rparr>"
     "[''/ws/cartridges/app_core'']" False None]
    clean_flag_consulted_once [of posix_basename
     "[StartSubscribed True,
      CartridgesCollected 0
        \<lparr>configFilename = ''dw.json'', cartridge = None, cartridgeResolution = None\<rparr>
        [''/ws/cartridges/app_core''] False None]" False 0
     "run posix_basename [StartSubscribed True] (newUploader True)"
     "\<lparr>configFilename = ''dw.json'', cartridge = None, cartridgeResolution = None\<rparr>"
     "[''/ws/cartridges/app_core'']" False None]
  by (simp add: newUploader_def onStart_def onCommand_def loadUploaderConfig_def appendLine_def
      onConfigLoaded_def onCartridges_def selectCartridges_def collectCartridges_def setAdd_def
      removeDuplicateCartridges_def cleanOnStart_def showWarnings_def getIgnoreList_def Let_def
      posix_basename_def)

end
